theory Spec2Isabelle
  imports Main "HOL-Library.AList" "HOL-Library.Multiset"
begin

section \<open>The plugin loader of expotion-core\<close>

text \<open>
  The development embeds \<^verbatim>\<open>expotion_core/plugin.py\<close> and
  \<^verbatim>\<open>expotion_core/loader.py\<close>.

  \<^item> A Python exception is a value \<open>Exception msg\<close>, where \<open>msg\<close> is what \<^verbatim>\<open>str(e)\<close>
    gives. Every \<^verbatim>\<open>except\<close> clause of the loader reads \<^verbatim>\<open>except Exception\<close>,
    and the model covers instances of \<^verbatim>\<open>Exception\<close>; signals outside that class
    (\<^verbatim>\<open>SystemExit\<close>, \<^verbatim>\<open>KeyboardInterrupt\<close>), hooks that do not return, and the
    interpreter's recursion limit are not part of it.
  \<^item> The hooks a plugin author writes are parameters of the model: for each hook the
    descriptor says whether the call returns or which exception it raises. A hook does
    not touch the loader or the fields \<^verbatim>\<open>_app\<close> and \<^verbatim>\<open>_enabled\<close> that the
    loader manages.
  \<^item> Instances are mutable objects that the registry, the sorted list and the caller
    share. They live in a store (\<open>objects\<close>), a reference is an index into it, and the
    registry maps a name to a reference.
  \<^item> A Python \<^verbatim>\<open>dict\<close> is an association list in insertion order: \<open>map_of\<close> is
    \<^verbatim>\<open>get\<close>, \<open>AList.update\<close> is item assignment (in place for a key that is present,
    at the end for a new key) and \<open>AList.delete\<close> is \<^verbatim>\<open>del\<close>.
  \<^item> The field \<open>calls\<close> is the only addition to the loader's state: it records, in
    order, the lifecycle hooks \<^verbatim>\<open>on_load\<close>, \<^verbatim>\<open>init_app\<close> and \<^verbatim>\<open>on_unload\<close> that
    the loader invoked. Log output is not modelled.
\<close>

subsection \<open>Data model (plugin.py)\<close>

datatype exn = Exception string

type_synonym payload = "(string \<times> string) list"

text \<open>The host application, as far as the loader reads it: two configuration keys.\<close>

record flask =
  config_DISABLED_PLUGINS :: "string list option"
  config_PLUGINS_DIR :: "string option"

text \<open>
  The class attributes of a plugin class that the loader reads, and the behaviour of its
  hooks: \<open>None\<close> for a hook that returns, \<open>Some e\<close> for one that raises \<open>e\<close>.
\<close>

record descriptor =
  name :: string
  version :: string
  dependencies :: "string list"
  hook_on_load :: "exn option"
  hook_init_app :: "exn option"
  hook_on_unload :: "exn option"
  hook_healthcheck :: "exn + payload"

text \<open>An instance: the state \<^verbatim>\<open>ExpotionPlugin.__init__\<close> creates (\<^verbatim>\<open>_app\<close>, \<^verbatim>\<open>_enabled\<close>).\<close>

record plugin =
  descr :: descriptor
  app :: "flask option"
  enabled :: bool

text \<open>A candidate class: calling it raises or gives a new instance.\<close>

record plugin_class =
  construct_raises :: "exn option"
  cls_descr :: descriptor

definition construct :: "plugin_class \<Rightarrow> exn + plugin" where
  "construct c =
     (case construct_raises c of
        Some e \<Rightarrow> Inl e
      | None \<Rightarrow> Inr \<lparr>descr = cls_descr c, app = None, enabled = True\<rparr>)"

text \<open>\<^verbatim>\<open>ExpotionPlugin.healthcheck\<close>, the default health hook.\<close>

definition default_healthcheck :: "string \<Rightarrow> string \<Rightarrow> payload" where
  "default_healthcheck n v = [(''status'', ''ok''), (''plugin'', n), (''version'', v)]"

subsection \<open>Loader state (loader.py)\<close>

type_synonym ref = nat

datatype call = On_load ref | Init_app ref flask | On_unload ref

record loader =
  l_app :: "flask option"
  plugins :: "(string \<times> ref) list"
  plugins_dir :: "string option"
  disabled_plugins :: "string list"
  objects :: "plugin list"
  calls :: "call list"

text \<open>\<^verbatim>\<open>PluginLoader.init_app\<close>; the entries it adds to the application are left out.\<close>

definition init_app :: "loader \<Rightarrow> flask \<Rightarrow> loader" where
  "init_app s a =
     s\<lparr>l_app := Some a,
       disabled_plugins := (case config_DISABLED_PLUGINS a of None \<Rightarrow> [] | Some d \<Rightarrow> d),
       plugins_dir := (case plugins_dir s of None \<Rightarrow> config_PLUGINS_DIR a | Some d \<Rightarrow> Some d)\<rparr>"

text \<open>\<^verbatim>\<open>PluginLoader.__init__\<close>.\<close>

definition PluginLoader :: "flask option \<Rightarrow> string option \<Rightarrow> loader" where
  "PluginLoader a dir =
     (let s = \<lparr>l_app = a, plugins = [], plugins_dir = dir, disabled_plugins = [],
                objects = [], calls = []\<rparr>
      in case a of None \<Rightarrow> s | Some a' \<Rightarrow> init_app s a')"

subsection \<open>Registration\<close>

text \<open>
  \<^verbatim>\<open>_register_plugin_class\<close>. The \<^verbatim>\<open>try\<close> spans the whole body: a constructor or an
  \<^verbatim>\<open>on_load\<close> that raises ends the call with the registry as it was. The source label
  only reaches the log.
\<close>

definition register_plugin_class :: "loader \<Rightarrow> plugin_class \<Rightarrow> loader" where
  "register_plugin_class s c =
     (case construct c of
        Inl e \<Rightarrow> s
      | Inr plugin \<Rightarrow>
          (let r = length (objects s);
               s1 = s\<lparr>objects := objects s @ [plugin]\<rparr>
           in if name (descr plugin) \<in> set (disabled_plugins s) then s1
              else if name (descr plugin) \<in> fst ` set (plugins s) then s1
              else
                (case hook_on_load (descr plugin) of
                   Some e \<Rightarrow> s1\<lparr>calls := calls s @ [On_load r]\<rparr>
                 | None \<Rightarrow>
                     s1\<lparr>calls := calls s @ [On_load r],
                        plugins := AList.update (name (descr plugin)) r (plugins s)\<rparr>)))"

subsection \<open>Dependency order\<close>

text \<open>
  \<^verbatim>\<open>_sort_by_dependencies\<close>. The inner function \<^verbatim>\<open>visit\<close> works on the two local
  variables \<^verbatim>\<open>visited\<close> and \<^verbatim>\<open>result\<close>, here the pair that is passed along;
  \<open>visit_deps\<close> is its loop over \<^verbatim>\<open>plugin.dependencies\<close>.
\<close>

function visit :: "plugin list \<Rightarrow> (string \<times> ref) list \<Rightarrow> string \<Rightarrow> string set \<times> ref list
                     \<Rightarrow> string set \<times> ref list"
  and visit_deps :: "plugin list \<Rightarrow> (string \<times> ref) list \<Rightarrow> string list
                     \<Rightarrow> string set \<times> ref list \<Rightarrow> string set \<times> ref list"
where
  "visit objs reg n (visited, result) =
     (if n \<in> visited then (visited, result)
      else
        (case map_of reg n of
           None \<Rightarrow> (insert n visited, result)
         | Some r \<Rightarrow>
             (case visit_deps objs reg (dependencies (descr (objs ! r))) (insert n visited, result) of
                (visited', result') \<Rightarrow> (visited', result' @ [r]))))"
| "visit_deps objs reg [] st = st"
| "visit_deps objs reg (dep # deps) st =
     (if dep \<in> fst ` set reg then visit_deps objs reg deps (visit objs reg dep st)
      else visit_deps objs reg deps st)"
  by pat_completeness auto

lemma visit_visited_mono_dom:
  "visit_visit_deps_dom (Inl (objs, reg, n, st)) \<Longrightarrow> fst st \<subseteq> fst (visit objs reg n st)"
  "visit_visit_deps_dom (Inr (objs, reg, ds, st)) \<Longrightarrow> fst st \<subseteq> fst (visit_deps objs reg ds st)"
proof (induction objs reg n st and objs reg ds st rule: visit_visit_deps.pinduct)
  case (1 objs reg n visited result)
  then show ?case
    by (auto simp: visit.psimps split: option.splits prod.splits)
next
  case (2 objs reg st)
  then show ?case by (simp add: visit_deps.psimps)
next
  case (3 objs reg dep deps st)
  then show ?case
    by (auto simp: visit_deps.psimps)
qed

termination visit
proof (relation "inv_image (less_than <*lex*> less_than)
         (\<lambda>x. case x of
                 Inl (objs, reg, n, st) \<Rightarrow> (card (fst ` set reg - fst st), 0)
               | Inr (objs, reg, ds, st) \<Rightarrow> (card (fst ` set reg - fst st), Suc (length ds)))",
       goal_cases)
  case 1
  show ?case by (intro wf_inv_image wf_lex_prod wf_less_than)
next
  case (2 objs reg n visited result r)
  then have "n \<in> fst ` set reg"
    by (metis map_of_SomeD fst_conv image_eqI)
  with 2 have "fst ` set reg - insert n visited \<subset> fst ` set reg - visited"
    by auto
  then have "card (fst ` set reg - insert n visited) < card (fst ` set reg - visited)"
    by (intro psubset_card_mono) auto
  then show ?case by simp
next
  case (3 objs reg dep deps st)
  then show ?case by simp
next
  case (4 objs reg dep deps st)
  then have "fst st \<subseteq> fst (visit objs reg dep st)"
    by (simp add: visit_visited_mono_dom(1))
  then have "card (fst ` set reg - fst (visit objs reg dep st)) \<le> card (fst ` set reg - fst st)"
    by (intro card_mono) auto
  then show ?case by auto
next
  case (5 objs reg dep deps st)
  then show ?case by simp
qed

text \<open>The loop \<^verbatim>\<open>for name in self._plugins: visit(name)\<close>.\<close>

fun visit_all :: "plugin list \<Rightarrow> (string \<times> ref) list \<Rightarrow> string list
                     \<Rightarrow> string set \<times> ref list \<Rightarrow> string set \<times> ref list" where
  "visit_all objs reg [] st = st"
| "visit_all objs reg (n # ns) st = visit_all objs reg ns (visit objs reg n st)"

definition sort_by_dependencies :: "plugin list \<Rightarrow> (string \<times> ref) list \<Rightarrow> ref list" where
  "sort_by_dependencies objs reg = snd (visit_all objs reg (map fst reg) ({}, []))"

subsection \<open>Initialization\<close>

text \<open>
  The body of the loop of \<^verbatim>\<open>_init_all_plugins\<close> on one instance: the assignment to
  \<^verbatim>\<open>_app\<close>, then \<^verbatim>\<open>init_app\<close>, and the handler that clears \<^verbatim>\<open>_enabled\<close>.
\<close>

definition init_plugin :: "flask \<Rightarrow> plugin \<Rightarrow> plugin" where
  "init_plugin a p =
     (let p1 = p\<lparr>app := Some a\<rparr>
      in case hook_init_app (descr p1) of
           None \<Rightarrow> p1
         | Some e \<Rightarrow> p1\<lparr>enabled := False\<rparr>)"

fun init_loop :: "flask \<Rightarrow> ref list \<Rightarrow> loader \<Rightarrow> loader" where
  "init_loop a [] s = s"
| "init_loop a (r # rs) s =
     init_loop a rs
       (s\<lparr>objects := (objects s)[r := init_plugin a (objects s ! r)],
          calls := calls s @ [Init_app r a]\<rparr>)"

definition init_all_plugins :: "loader \<Rightarrow> loader" where
  "init_all_plugins s =
     (case l_app s of
        None \<Rightarrow> s
      | Some a \<Rightarrow> init_loop a (sort_by_dependencies (objects s) (plugins s)) s)"

subsection \<open>Discovery\<close>

text \<open>
  What the two sources read from the host. An entry point has a name and a \<^verbatim>\<open>load()\<close>
  that raises or gives a class; \<^verbatim>\<open>importlib.metadata.entry_points()\<close> raises or gives
  the entry points of the group \<^verbatim>\<open>expotion.plugins\<close>. A module file, once executed,
  raises or gives its attributes in the order of \<^verbatim>\<open>dir(module)\<close>; an attribute is a
  strict subclass of \<^verbatim>\<open>ExpotionPlugin\<close> or anything else; a file for which
  \<^verbatim>\<open>spec_from_file_location\<close> gives no loader is a module without attributes. A path is
  absent (\<open>None\<close>) or a directory with its entries in the order of \<^verbatim>\<open>iterdir()\<close>.
\<close>

record entry_point =
  ep_name :: string
  ep_load :: "exn + plugin_class"

datatype attr = Plugin_subclass plugin_class | Other_attr

type_synonym module = "exn + attr list"

record dir_entry =
  de_name :: string
  de_is_dir :: bool
  de_plugin_py :: "module option"
  de_init_py :: "module option"

record environment =
  entry_points :: "exn + entry_point list"
  iterdir :: "string \<Rightarrow> dir_entry list option"

fun load_eps :: "entry_point list \<Rightarrow> loader \<Rightarrow> loader" where
  "load_eps [] s = s"
| "load_eps (ep # eps) s =
     load_eps eps
       (case ep_load ep of
          Inl e \<Rightarrow> s
        | Inr plugin_class \<Rightarrow> register_plugin_class s plugin_class)"

definition load_from_entry_points :: "environment \<Rightarrow> loader \<Rightarrow> loader" where
  "load_from_entry_points env s =
     (case entry_points env of
        Inl e \<Rightarrow> s
      | Inr eps \<Rightarrow> load_eps eps s)"

text \<open>The scan of \<^verbatim>\<open>dir(module)\<close>: the first matching class, then \<^verbatim>\<open>break\<close>.\<close>

fun first_plugin_class :: "attr list \<Rightarrow> plugin_class option" where
  "first_plugin_class [] = None"
| "first_plugin_class (Plugin_subclass c # _) = Some c"
| "first_plugin_class (Other_attr # as) = first_plugin_class as"

definition hidden_name :: "string \<Rightarrow> bool" where
  "hidden_name n = (case n of [] \<Rightarrow> False | c # _ \<Rightarrow> c = CHR ''_'' \<or> c = CHR ''.'')"

fun load_dirs :: "dir_entry list \<Rightarrow> loader \<Rightarrow> loader" where
  "load_dirs [] s = s"
| "load_dirs (plugin_path # rest) s =
     load_dirs rest
       (if \<not> de_is_dir plugin_path then s
        else if hidden_name (de_name plugin_path) then s
        else
          (case (case de_plugin_py plugin_path of
                   Some m \<Rightarrow> Some m
                 | None \<Rightarrow> de_init_py plugin_path) of
             None \<Rightarrow> s
           | Some (Inl e) \<Rightarrow> s
           | Some (Inr attrs) \<Rightarrow>
               (case first_plugin_class attrs of
                  None \<Rightarrow> s
                | Some c \<Rightarrow> register_plugin_class s c)))"

text \<open>Python's truth value of \<^verbatim>\<open>self._plugins_dir\<close>: unset and the empty path are false.\<close>

definition dir_set :: "string option \<Rightarrow> bool" where
  "dir_set d = (case d of None \<Rightarrow> False | Some p \<Rightarrow> p \<noteq> [])"

definition load_from_directory :: "environment \<Rightarrow> loader \<Rightarrow> loader" where
  "load_from_directory env s =
     (case plugins_dir s of
        None \<Rightarrow> s
      | Some p \<Rightarrow>
          (if p = [] then s
           else case iterdir env p of
                  None \<Rightarrow> s
                | Some entries \<Rightarrow> load_dirs entries s))"

definition load_all :: "environment \<Rightarrow> loader \<Rightarrow> loader" where
  "load_all env s =
     (let s1 = load_from_entry_points env s;
          s2 = (if dir_set (plugins_dir s1) then load_from_directory env s1 else s1)
      in init_all_plugins s2)"

text \<open>The state between the two discovery steps of \<^verbatim>\<open>load_all\<close> and its last step.\<close>

definition discovered :: "environment \<Rightarrow> loader \<Rightarrow> loader" where
  "discovered env s =
     (let s1 = load_from_entry_points env s
      in if dir_set (plugins_dir s1) then load_from_directory env s1 else s1)"

subsection \<open>Queries, health check and unloading\<close>

text \<open>
  \<^verbatim>\<open>get_plugin\<close> and \<^verbatim>\<open>get_all_plugins\<close> return instances, here their references.
  The \<^verbatim>\<open>plugins\<close> property and \<^verbatim>\<open>get_all_menu_items\<close> play no part below and are
  left out.
\<close>

definition get_plugin :: "loader \<Rightarrow> string \<Rightarrow> ref option" where
  "get_plugin s n = map_of (plugins s) n"

definition get_all_plugins :: "loader \<Rightarrow> ref list" where
  "get_all_plugins s = filter (\<lambda>r. enabled (objects s ! r)) (map snd (plugins s))"




definition unload_plugin :: "loader \<Rightarrow> string \<Rightarrow> bool \<times> loader" where
  "unload_plugin s n =
     (case map_of (plugins s) n of
        None \<Rightarrow> (False, s)
      | Some r \<Rightarrow>
          (case hook_on_unload (descr (objects s ! r)) of
             Some e \<Rightarrow> (False, s\<lparr>calls := calls s @ [On_unload r]\<rparr>)
           | None \<Rightarrow>
               (True,
                s\<lparr>calls := calls s @ [On_unload r],
                  objects := (objects s)[r := (objects s ! r)\<lparr>enabled := False\<rparr>],
                  plugins := AList.delete n (plugins s)\<rparr>)))"

subsection \<open>Well-formed states and example classes\<close>

text \<open>
  The representation invariant of a loader state: the registry has one entry per key (it is
  a \<^verbatim>\<open>dict\<close>), every entry refers to an instance of its own in the store, and the key is
  that instance's name (\<^verbatim>\<open>self._plugins[plugin.name] = plugin\<close>).
\<close>

definition registry_ok :: "loader \<Rightarrow> bool" where
  "registry_ok s \<longleftrightarrow>
     distinct (map fst (plugins s)) \<and> distinct (map snd (plugins s)) \<and>
     (\<forall>(n, r) \<in> set (plugins s). r < length (objects s) \<and> name (descr (objects s ! r)) = n)"

text \<open>
  A loader that never had an application: \<^verbatim>\<open>_app\<close> is only ever assigned by
  \<^verbatim>\<open>init_app\<close>, so without it no initialization pass has run. Then every registered
  instance is as its constructor left it, and no \<^verbatim>\<open>init_app\<close> hook was called.
\<close>

definition unbound_ok :: "loader \<Rightarrow> bool" where
  "unbound_ok s \<longleftrightarrow>
     l_app s = None \<and>
     (\<forall>(n, r) \<in> set (plugins s).
        r < length (objects s) \<and> enabled (objects s ! r) \<and> app (objects s ! r) = None) \<and>
     (\<forall>c \<in> set (calls s). case c of Init_app r a \<Rightarrow> False | _ \<Rightarrow> True)"

text \<open>
  A plugin class that overrides nothing but \<^verbatim>\<open>init_app\<close>: every hook returns, the health
  hook is the default one.
\<close>

definition simple_plugin :: "string \<Rightarrow> string list \<Rightarrow> plugin_class" where
  "simple_plugin n deps =
     \<lparr>construct_raises = None,
      cls_descr = \<lparr>name = n, version = ''1.0.0'', dependencies = deps,
                   hook_on_load = None, hook_init_app = None, hook_on_unload = None,
                   hook_healthcheck = Inr (default_healthcheck n ''1.0.0'')\<rparr>\<rparr>"

text \<open>The same class with an \<^verbatim>\<open>on_load\<close>, \<^verbatim>\<open>init_app\<close> or health hook that raises.\<close>

definition raising_on_load :: "string \<Rightarrow> plugin_class" where
  "raising_on_load n =
     (simple_plugin n [])\<lparr>cls_descr :=
        (cls_descr (simple_plugin n []))\<lparr>hook_on_load := Some (Exception ''boom'')\<rparr>\<rparr>"







text \<open>
  A host with two entry points, \<^verbatim>\<open>x\<close> and \<^verbatim>\<open>y\<close>, and a plugin directory with the
  folders \<^verbatim>\<open>x\<close> (a \<^verbatim>\<open>plugin.py\<close>) and \<^verbatim>\<open>z\<close> (an \<^verbatim>\<open>__init__.py\<close>): both
  sources give a plugin named \<^verbatim>\<open>x\<close>. The application disables \<^verbatim>\<open>x\<close>.
\<close>

definition host_env :: environment where
  "host_env =
     \<lparr>entry_points =
        Inr [\<lparr>ep_name = ''x'', ep_load = Inr (simple_plugin ''x'' [])\<rparr>,
             \<lparr>ep_name = ''y'', ep_load = Inr (simple_plugin ''y'' [])\<rparr>],
      iterdir = (\<lambda>p. if p = ''plugins''
        then Some [\<lparr>de_name = ''x'', de_is_dir = True,
                    de_plugin_py = Some (Inr [Other_attr, Plugin_subclass (simple_plugin ''x'' [])]),
                    de_init_py = None\<rparr>,
                   \<lparr>de_name = ''z'', de_is_dir = True, de_plugin_py = None,
                    de_init_py = Some (Inr [Plugin_subclass (simple_plugin ''z'' [])])\<rparr>]
        else None)\<rparr>"

definition disabling_app :: flask where
  "disabling_app = \<lparr>config_DISABLED_PLUGINS = Some [''x''], config_PLUGINS_DIR = Some ''plugins''\<rparr>"

subsection \<open>Notions used to state the properties\<close>








section \<open>Properties\<close>

subsection \<open>Registration\<close>

lemma update_new: "k \<notin> fst ` set al \<Longrightarrow> AList.update k v al = al @ [(k, v)]"
  by (induction al) auto

text \<open>The four ways \<^verbatim>\<open>_register_plugin_class\<close> ends, read off its definition.\<close>

lemma register_cases:
  "register_plugin_class s c =
     (if construct_raises c \<noteq> None then s
      else if name (cls_descr c) \<in> set (disabled_plugins s)
              \<or> name (cls_descr c) \<in> fst ` set (plugins s)
        then s\<lparr>objects := objects s @ [\<lparr>descr = cls_descr c, app = None, enabled = True\<rparr>]\<rparr>
      else if hook_on_load (cls_descr c) \<noteq> None
        then s\<lparr>objects := objects s @ [\<lparr>descr = cls_descr c, app = None, enabled = True\<rparr>],
               calls := calls s @ [On_load (length (objects s))]\<rparr>
      else s\<lparr>objects := objects s @ [\<lparr>descr = cls_descr c, app = None, enabled = True\<rparr>],
             calls := calls s @ [On_load (length (objects s))],
             plugins := plugins s @ [(name (cls_descr c), length (objects s))]\<rparr>)"
  by (auto simp: register_plugin_class_def construct_def Let_def update_new
      split: option.splits)

text \<open>
  Claim C2. Registering a candidate whose name is already a key of the registry changes
  nothing: the registry is the same list (same keys, same instances, same size), no hook
  is invoked, and every instance that existed before is in the state it was in.
\<close>

theorem register_duplicate_unchanged:
  assumes "name (cls_descr c) \<in> fst ` set (plugins s)"
  shows "plugins (register_plugin_class s c) = plugins s \<and>
         calls (register_plugin_class s c) = calls s \<and>
         take (length (objects s)) (objects (register_plugin_class s c)) = objects s"
  using assms by (simp add: register_cases)

theorem register_duplicate_unchanged_witness:
  "name (cls_descr (simple_plugin ''dup'' [''other'']))
     \<in> fst ` set (plugins (register_plugin_class (PluginLoader None None) (simple_plugin ''dup'' []))) \<and>
   plugins (register_plugin_class
              (register_plugin_class (PluginLoader None None) (simple_plugin ''dup'' []))
              (simple_plugin ''dup'' [''other''])) = [(''dup'', 0)] \<and>
   calls (register_plugin_class
            (register_plugin_class (PluginLoader None None) (simple_plugin ''dup'' []))
            (simple_plugin ''dup'' [''other''])) = [On_load 0]"
proof -
  have h: "name (cls_descr (simple_plugin ''dup'' [''other'']))
     \<in> fst ` set (plugins (register_plugin_class (PluginLoader None None) (simple_plugin ''dup'' [])))"
    by (simp add: register_cases PluginLoader_def simple_plugin_def)
  show ?thesis
    using h register_duplicate_unchanged [OF h]
    by (simp add: register_cases PluginLoader_def simple_plugin_def)
qed

text \<open>
  Claim C9. A candidate whose \<^verbatim>\<open>on_load\<close> raises leaves the registry as it was, and a
  later candidate of the same name whose hooks return is registered under that name.
\<close>

theorem register_on_load_raises:
  assumes "hook_on_load (cls_descr c) = Some e"
  shows "plugins (register_plugin_class s c) = plugins s \<and>
         (\<forall>c2. construct_raises c2 = None \<and> hook_on_load (cls_descr c2) = None \<and>
               name (cls_descr c2) = name (cls_descr c) \<and>
               name (cls_descr c) \<notin> set (disabled_plugins s) \<and>
               name (cls_descr c) \<notin> fst ` set (plugins s) \<longrightarrow>
               get_plugin (register_plugin_class (register_plugin_class s c) c2) (name (cls_descr c))
                 = Some (length (objects (register_plugin_class s c))))"
  using assms
  by (auto simp add: register_cases get_plugin_def map_add_Some_iff map_of_eq_None_iff)

theorem register_on_load_raises_witness:
  "hook_on_load (cls_descr (raising_on_load ''a'')) = Some (Exception ''boom'') \<and>
   plugins (register_plugin_class (PluginLoader None None) (raising_on_load ''a'')) = [] \<and>
   calls (register_plugin_class (PluginLoader None None) (raising_on_load ''a'')) = [On_load 0] \<and>
   get_plugin (register_plugin_class
                 (register_plugin_class (PluginLoader None None) (raising_on_load ''a''))
                 (simple_plugin ''a'' [])) ''a'' = Some 1"
proof -
  have h: "hook_on_load (cls_descr (raising_on_load ''a'')) = Some (Exception ''boom'')"
    by (simp add: raising_on_load_def simple_plugin_def)
  show ?thesis
    using h register_on_load_raises [OF h, of "PluginLoader None None"]
    by (simp add: register_cases PluginLoader_def raising_on_load_def simple_plugin_def
          get_plugin_def)
qed

text \<open>
  Claim C5, as the code has it. The claim says that a candidate whose name is the empty
  string is rejected. \<^verbatim>\<open>_register_plugin_class\<close> never looks at the name beyond the two
  membership tests: a candidate named \<^verbatim>\<open>""\<close> is registered under the key \<^verbatim>\<open>""\<close>.
\<close>

theorem register_empty_name_counterexample:
  "name (cls_descr (simple_plugin [] [])) = [] \<and>
   get_plugin (register_plugin_class (PluginLoader None None) (simple_plugin [] [])) [] = Some 0"
  by (simp add: register_cases PluginLoader_def simple_plugin_def get_plugin_def)

text \<open>
  Claim C5, amended. After registering a candidate, its name is a key of the registry
  exactly when it was one before, or the constructor returned, the name is not in the
  disable-list and \<^verbatim>\<open>on_load\<close> returned. Whether the name is empty plays no part.
\<close>

theorem register_key_iff:
  "name (cls_descr c) \<in> fst ` set (plugins (register_plugin_class s c)) \<longleftrightarrow>
     name (cls_descr c) \<in> fst ` set (plugins s) \<or>
     (construct_raises c = None \<and> name (cls_descr c) \<notin> set (disabled_plugins s) \<and>
      hook_on_load (cls_descr c) = None)"
  by (auto simp add: register_cases)

theorem register_key_iff_witness:
  "construct_raises (simple_plugin [] []) = None \<and>
   name (cls_descr (simple_plugin [] [])) \<notin> set (disabled_plugins (PluginLoader None None)) \<and>
   hook_on_load (cls_descr (simple_plugin [] [])) = None \<and>
   name (cls_descr (simple_plugin [] []))
     \<in> fst ` set (plugins (register_plugin_class (PluginLoader None None) (simple_plugin [] [])))"
  using register_key_iff [of "simple_plugin [] []" "PluginLoader None None"]
  by (simp add: PluginLoader_def simple_plugin_def)

subsection \<open>Health check\<close>





subsection \<open>Unloading\<close>



subsection \<open>Dependency order\<close>























lemma init_loop_fields:
  "plugins (init_loop a rs s) = plugins s \<and> l_app (init_loop a rs s) = l_app s \<and>
   disabled_plugins (init_loop a rs s) = disabled_plugins s \<and>
   plugins_dir (init_loop a rs s) = plugins_dir s \<and>
   length (objects (init_loop a rs s)) = length (objects s) \<and>
   calls (init_loop a rs s) = calls s @ map (\<lambda>r. Init_app r a) rs"
  by (induction rs arbitrary: s) auto

lemma init_plugin_idem: "init_plugin a (init_plugin a p) = init_plugin a p"
  by (simp add: init_plugin_def Let_def split: option.splits)

lemma nth_update_self:
  "j < length xs \<Longrightarrow> xs[i := f (xs ! i)] ! j = (if i = j then f (xs ! j) else xs ! j)"
  by (simp add: nth_list_update)

lemma init_loop_objects:
  "r < length (objects s) \<Longrightarrow>
   objects (init_loop a rs s) ! r =
     (if r \<in> set rs then init_plugin a (objects s ! r) else objects s ! r)"
proof (induction rs arbitrary: s)
  case Nil
  then show ?case by simp
next
  case (Cons r0 rs)
  let ?s1 = "s\<lparr>objects := (objects s)[r0 := init_plugin a (objects s ! r0)],
               calls := calls s @ [Init_app r0 a]\<rparr>"
  have "r < length (objects ?s1)" using Cons.prems by simp
  from Cons.IH [OF this]
  have "objects (init_loop a (r0 # rs) s) ! r =
          (if r \<in> set rs then init_plugin a (objects ?s1 ! r) else objects ?s1 ! r)"
    by simp
  moreover have "objects ?s1 ! r = (if r0 = r then init_plugin a (objects s ! r) else objects s ! r)"
    using Cons.prems by (simp add: nth_update_self)
  ultimately show ?case
    by (simp only: init_plugin_idem set_simps insert_iff split: if_splits) auto
qed




subsection \<open>Initialization\<close>



subsection \<open>Loading\<close>

lemma load_all_discovered: "load_all env s = init_all_plugins (discovered env s)"
  by (simp add: load_all_def discovered_def Let_def)

lemma load_eps_preserves:
  assumes "\<And>s c. P s \<Longrightarrow> P (register_plugin_class s c)" and "P s"
  shows "P (load_eps eps s)"
  using assms(2) by (induction eps arbitrary: s) (auto intro: assms(1) split: sum.splits)

lemma load_dirs_preserves:
  assumes "\<And>s c. P s \<Longrightarrow> P (register_plugin_class s c)" and "P s"
  shows "P (load_dirs es s)"
  using assms(2)
  by (induction es arbitrary: s) (auto intro: assms(1) split: sum.splits option.splits)

lemma discovered_preserves:
  assumes "\<And>s c. P s \<Longrightarrow> P (register_plugin_class s c)" and "P s"
  shows "P (discovered env s)"
proof -
  have 1: "P (load_from_entry_points env s)" if "P s" for s
    using that assms(1)
    by (auto simp: load_from_entry_points_def intro: load_eps_preserves split: sum.splits)
  have 2: "P (load_from_directory env s)" if "P s" for s
    using that assms(1)
    by (auto simp: load_from_directory_def intro: load_dirs_preserves split: option.splits)
  show ?thesis
    using assms(2) by (simp add: discovered_def Let_def 1 2)
qed

lemma register_registry_ok:
  assumes "registry_ok s"
  shows "registry_ok (register_plugin_class s c)"
proof -
  have old: "(objects s @ [p]) ! r = objects s ! r" if "(n, r) \<in> set (plugins s)" for n r p
    using assms that by (auto simp: registry_ok_def nth_append)
  have fresh: "length (objects s) \<notin> snd ` set (plugins s)"
    using assms by (auto simp: registry_ok_def)
  show ?thesis
    using assms fresh
    by (auto simp: register_cases registry_ok_def old nth_append less_Suc_eq)
qed

lemma register_disabled:
  "disabled_plugins (register_plugin_class s c) = disabled_plugins s"
  "n \<in> set (disabled_plugins s) \<Longrightarrow> n \<notin> fst ` set (plugins s) \<Longrightarrow>
   n \<notin> fst ` set (plugins (register_plugin_class s c))"
  by (auto simp: register_cases)

lemma init_plugin_descr: "descr (init_plugin a p) = descr p"
  by (simp add: init_plugin_def Let_def split: option.splits)

lemma init_all_plugins_fields:
  "plugins (init_all_plugins s) = plugins s"
  "disabled_plugins (init_all_plugins s) = disabled_plugins s"
  "length (objects (init_all_plugins s)) = length (objects s)"
  "r < length (objects s) \<Longrightarrow> descr (objects (init_all_plugins s) ! r) = descr (objects s ! r)"
  by (auto simp: init_all_plugins_def init_loop_fields init_loop_objects init_plugin_descr
      split: option.splits)

lemma init_all_plugins_registry_ok:
  "registry_ok s \<Longrightarrow> registry_ok (init_all_plugins s)"
  by (auto simp: registry_ok_def init_all_plugins_fields)

text \<open>
  The invariant holds in every state a program reaches: a new loader has it, and
  \<^verbatim>\<open>load_all\<close> and \<^verbatim>\<open>unload_plugin\<close> keep it.
\<close>

lemma PluginLoader_registry_ok: "registry_ok (PluginLoader a dir)"
  by (cases a) (simp_all add: registry_ok_def PluginLoader_def init_app_def)

lemma load_all_registry_ok:
  assumes "registry_ok s"
  shows "registry_ok (load_all env s)"
proof -
  have "registry_ok (discovered env s)"
    by (rule discovered_preserves [where P = registry_ok, OF register_registry_ok assms])
  then show ?thesis
    by (simp add: load_all_discovered init_all_plugins_registry_ok)
qed

lemma unload_plugin_registry_ok:
  assumes "registry_ok s"
  shows "registry_ok (snd (unload_plugin s n))"
proof -
  let ?s' = "snd (unload_plugin s n)"
  have regs: "plugins ?s' = plugins s \<or> plugins ?s' = AList.delete n (plugins s)"
    by (auto simp: unload_plugin_def split: option.splits)
  have len: "length (objects ?s') = length (objects s)"
    by (auto simp: unload_plugin_def split: option.splits)
  have nm: "descr (objects ?s' ! r) = descr (objects s ! r)" if "r < length (objects s)" for r
  proof -
    have "descr ((objects s)[r0 := (objects s ! r0)\<lparr>enabled := False\<rparr>] ! r) = descr (objects s ! r)"
      for r0
      using that by (cases "r0 = r") simp_all
    then show ?thesis
      by (auto simp: unload_plugin_def split: option.splits)
  qed
  have sub: "set (plugins ?s') \<subseteq> set (plugins s)"
    using regs by (auto simp: AList.delete_eq)
  have d1: "distinct (map fst (plugins ?s'))"
    using regs assms by (auto simp: registry_ok_def distinct_delete)
  have d2: "distinct (map snd (plugins ?s'))"
    using regs assms by (auto simp: registry_ok_def AList.delete_eq distinct_map_filter)
  have "r < length (objects ?s') \<and> name (descr (objects ?s' ! r)) = k"
    if "(k, r) \<in> set (plugins ?s')" for k r
  proof -
    from that sub have "(k, r) \<in> set (plugins s)" by blast
    with assms have "r < length (objects s)" "name (descr (objects s ! r)) = k"
      by (auto simp: registry_ok_def)
    then show ?thesis by (simp add: len nm)
  qed
  with d1 d2 show ?thesis
    unfolding registry_ok_def by blast
qed

lemmas eval_defs = load_all_def load_from_entry_points_def load_from_directory_def dir_set_def
  hidden_name_def host_env_def disabling_app_def PluginLoader_def init_app_def register_cases
  simple_plugin_def init_all_plugins_def sort_by_dependencies_def get_plugin_def
  get_all_plugins_def init_plugin_def

text \<open>
  Claim C4. A name of the disable-list is not a key of the registry after \<^verbatim>\<open>load_all\<close>,
  whichever and however many sources give a candidate of that name; \<^verbatim>\<open>get_plugin\<close>
  gives \<^verbatim>\<open>None\<close> for it and no instance in \<^verbatim>\<open>get_all_plugins\<close> bears it. The
  disable-list is read at registration only, so the state before \<^verbatim>\<open>load_all\<close> must
  not hold such a key already; a new loader holds none.
\<close>

theorem disabled_never_registered:
  assumes "registry_ok s" and "\<forall>n \<in> set (disabled_plugins s). n \<notin> fst ` set (plugins s)"
  shows "\<forall>n \<in> set (disabled_plugins s).
           n \<notin> fst ` set (plugins (load_all env s)) \<and>
           get_plugin (load_all env s) n = None \<and>
           (\<forall>r \<in> set (get_all_plugins (load_all env s)).
              name (descr (objects (load_all env s) ! r)) \<noteq> n)"
proof -
  let ?P = "\<lambda>t. registry_ok t \<and> disabled_plugins t = disabled_plugins s \<and>
                 (\<forall>n \<in> set (disabled_plugins s). n \<notin> fst ` set (plugins t))"
  have step: "?P (register_plugin_class t c)" if "?P t" for t c
  proof -
    from that have "registry_ok (register_plugin_class t c)"
      by (simp add: register_registry_ok)
    moreover from that have "disabled_plugins (register_plugin_class t c) = disabled_plugins s"
      by (simp add: register_disabled(1))
    moreover from that
    have "\<forall>n \<in> set (disabled_plugins s). n \<notin> fst ` set (plugins (register_plugin_class t c))"
      using register_disabled(2) [of _ t c] by simp
    ultimately show ?thesis by simp
  qed
  have "?P s" using assms by simp
  with step have "?P (discovered env s)"
    by (rule discovered_preserves [where P = ?P])
  then have ok: "registry_ok (load_all env s)"
    and dis: "\<forall>n \<in> set (disabled_plugins s). n \<notin> fst ` set (plugins (load_all env s))"
    by (auto simp: load_all_discovered init_all_plugins_registry_ok init_all_plugins_fields)
  show ?thesis
  proof (intro ballI conjI)
    fix n assume n: "n \<in> set (disabled_plugins s)"
    with dis show nk: "n \<notin> fst ` set (plugins (load_all env s))" by blast
    then show "get_plugin (load_all env s) n = None"
      by (simp add: get_plugin_def map_of_eq_None_iff)
    fix r assume "r \<in> set (get_all_plugins (load_all env s))"
    then obtain k where "(k, r) \<in> set (plugins (load_all env s))"
      by (auto simp: get_all_plugins_def)
    with ok nk have "name (descr (objects (load_all env s) ! r)) = k" and "k \<noteq> n"
      by (auto simp: registry_ok_def intro: rev_image_eqI)
    then show "name (descr (objects (load_all env s) ! r)) \<noteq> n" by simp
  qed
qed

theorem disabled_never_registered_witness:
  "registry_ok (PluginLoader (Some disabling_app) None) \<and>
   disabled_plugins (PluginLoader (Some disabling_app) None) = [''x''] \<and>
   ''x'' \<notin> fst ` set (plugins (PluginLoader (Some disabling_app) None)) \<and>
   get_plugin (load_all host_env (PluginLoader (Some disabling_app) None)) ''x'' = None \<and>
   plugins (load_all host_env (PluginLoader (Some disabling_app) None)) = [(''y'', 1), (''z'', 3)]"
proof -
  have 1: "registry_ok (PluginLoader (Some disabling_app) None)"
    by (simp add: registry_ok_def PluginLoader_def init_app_def)
  have 2: "disabled_plugins (PluginLoader (Some disabling_app) None) = [''x'']"
    and 3: "''x'' \<notin> fst ` set (plugins (PluginLoader (Some disabling_app) None))"
    by (simp_all add: PluginLoader_def init_app_def disabling_app_def)
  from 2 3 have 4: "\<forall>n \<in> set (disabled_plugins (PluginLoader (Some disabling_app) None)).
      n \<notin> fst ` set (plugins (PluginLoader (Some disabling_app) None))"
    by simp
  have 5: "plugins (load_all host_env (PluginLoader (Some disabling_app) None))
             = [(''y'', 1), (''z'', 3)]"
    by (simp add: eval_defs)
  from disabled_never_registered [OF 1 4, of host_env] 2
  have 6: "get_plugin (load_all host_env (PluginLoader (Some disabling_app) None)) ''x'' = None"
    by simp
  show ?thesis
    by (intro conjI 1 2 3 5 6)
qed

lemma register_unbound_ok:
  assumes "unbound_ok s"
  shows "unbound_ok (register_plugin_class s c)"
proof -
  have old: "(objects s @ [p]) ! r = objects s ! r" if "(n, r) \<in> set (plugins s)" for n r p
    using assms that by (auto simp: unbound_ok_def nth_append)
  show ?thesis
    using assms
    by (auto simp: register_cases unbound_ok_def old nth_append less_Suc_eq)
qed

lemma load_all_unbound:
  assumes "unbound_ok s"
  shows "load_all env s = discovered env s \<and> unbound_ok (load_all env s)"
proof -
  have "unbound_ok (discovered env s)"
    by (rule discovered_preserves [where P = unbound_ok, OF register_unbound_ok assms])
  moreover from this have "init_all_plugins (discovered env s) = discovered env s"
    by (simp add: init_all_plugins_def unbound_ok_def)
  ultimately show ?thesis by (simp add: load_all_discovered)
qed

text \<open>
  Claim C10. On a loader without application \<^verbatim>\<open>load_all\<close> ends after discovery: its
  result is the state the two sources leave, the registry they filled included. Every
  registered instance is enabled with \<^verbatim>\<open>_app\<close> unset, and no \<^verbatim>\<open>init_app\<close> was called.
\<close>

theorem load_all_without_app:
  assumes "unbound_ok s"
  shows "load_all env s = discovered env s \<and>
         (\<forall>(n, r) \<in> set (plugins (load_all env s)).
            enabled (objects (load_all env s) ! r) \<and> app (objects (load_all env s) ! r) = None) \<and>
         (\<forall>r a. Init_app r a \<notin> set (calls (load_all env s)))"
proof -
  have eq: "load_all env s = discovered env s" and ok: "unbound_ok (load_all env s)"
    using load_all_unbound [OF assms, of env] by blast+
  have "Init_app r a \<notin> set (calls (load_all env s))" for r a
    using ok by (auto simp: unbound_ok_def)
  with eq ok show ?thesis
    by (auto simp: unbound_ok_def)
qed

theorem load_all_without_app_witness:
  "unbound_ok (PluginLoader None (Some ''plugins'')) \<and>
   plugins (load_all host_env (PluginLoader None (Some ''plugins'')))
     = [(''x'', 0), (''y'', 1), (''z'', 3)] \<and>
   calls (load_all host_env (PluginLoader None (Some ''plugins'')))
     = [On_load 0, On_load 1, On_load 3] \<and>
   enabled (objects (load_all host_env (PluginLoader None (Some ''plugins''))) ! 3) \<and>
   app (objects (load_all host_env (PluginLoader None (Some ''plugins''))) ! 3) = None"
proof -
  have 1: "unbound_ok (PluginLoader None (Some ''plugins''))"
    by (simp add: unbound_ok_def PluginLoader_def)
  have 2: "plugins (load_all host_env (PluginLoader None (Some ''plugins'')))
     = [(''x'', 0), (''y'', 1), (''z'', 3)]"
    and 3: "calls (load_all host_env (PluginLoader None (Some ''plugins'')))
     = [On_load 0, On_load 1, On_load 3]"
    by (simp_all add: eval_defs)
  from load_all_without_app [OF 1, of host_env, THEN conjunct2, THEN conjunct1] 2
  have 4: "enabled (objects (load_all host_env (PluginLoader None (Some ''plugins''))) ! 3)"
    and 5: "app (objects (load_all host_env (PluginLoader None (Some ''plugins''))) ! 3) = None"
    by simp_all
  show ?thesis
    by (intro conjI 1 2 3 4 5)
qed

end
